theory Spec2Isabelle
  imports Main
begin

section \<open>Python values used by the trip planner\<close>

text \<open>
  Python strings are sequences of Unicode code points; a string is modelled as the list of
  its \<open>ord\<close> values.  ASCII literals of the source are written \<open>u ''...''\<close>.
  Python integers are unbounded and are modelled by \<open>int\<close>.  A \<open>datetime.date\<close> is
  modelled by its proleptic Gregorian ordinal, so that the difference of two dates is the
  difference of the ordinals.
\<close>

type_synonym ustring = "int list"

type_synonym date = int

definition u :: "string \<Rightarrow> ustring" where
  "u s = map of_char s"

datatype error = ZeroDivisionError | OverflowError | ValueError | KeyError | TypeError

definition bindE :: "'e + 'a \<Rightarrow> ('a \<Rightarrow> 'e + 'b) \<Rightarrow> 'e + 'b" where
  "bindE m f = (case m of Inl e \<Rightarrow> Inl e | Inr x \<Rightarrow> f x)"

text \<open>\<open>d.get(key, default)\<close> on a dictionary entry that may be missing.\<close>

definition get_or :: "'a option \<Rightarrow> 'a \<Rightarrow> 'a" where
  "get_or v d = (case v of None \<Rightarrow> d | Some x \<Rightarrow> x)"

subsection \<open>Floating point: correctly rounded division and conversion to \<open>int\<close>\<close>

text \<open>
  A finite binary64 value is kept as a pair of a signed mantissa and an exponent,
  \<open>Finite m e\<close> standing for \<open>m * 2 ^ e\<close>.  Python's \<open>a / b\<close> on two integers returns the
  double nearest to the exact quotient (ties to even) and raises \<open>OverflowError\<close> when
  that double would not be finite; \<open>int(x)\<close> truncates a finite double toward zero and
  raises \<open>OverflowError\<close> on an infinity.  Everything is computed in integer arithmetic.
\<close>

datatype pyfloat = Finite int int | PosInf | NegInf

function bit_length :: "int \<Rightarrow> int" where
  "bit_length n = (if n \<le> 0 then 0 else 1 + bit_length (n div 2))"
  by pat_completeness auto
termination
  by (relation "measure nat") auto

declare bit_length.simps [simp del]

definition round_div_half_even :: "int \<Rightarrow> int \<Rightarrow> int" where
  "round_div_half_even n d =
     (let q = n div d; r = n mod d
      in if 2 * r < d then q else if d < 2 * r then q + 1 else if even q then q else q + 1)"

text \<open>\<open>binade a b\<close> is the exponent \<open>f\<close> with \<open>2 ^ f \<le> a / b < 2 ^ (f + 1)\<close>, for positive
  \<open>a\<close> and \<open>b\<close>.\<close>

definition binade :: "int \<Rightarrow> int \<Rightarrow> int" where
  "binade a b =
     (let d = bit_length a - bit_length b
      in if (if 0 \<le> d then b * 2 ^ nat d \<le> a else b \<le> a * 2 ^ nat (- d)) then d else d - 1)"

text \<open>The nearest value with a 53-bit mantissa (exponent at least \<open>-1074\<close>) to \<open>a / b\<close>, for
  \<open>0 \<le> a\<close> and \<open>0 < b\<close>, as mantissa and exponent.\<close>

definition nearest_double :: "int \<Rightarrow> int \<Rightarrow> int \<times> int" where
  "nearest_double a b =
     (if a = 0 then (0, 0)
      else let e = max (binade a b - 52) (- 1074)
           in (if 0 \<le> e then round_div_half_even a (b * 2 ^ nat e)
               else round_div_half_even (a * 2 ^ nat (- e)) b, e))"

text \<open>The rounded value \<open>m * 2 ^ e\<close> reaches \<open>2 ^ 1024\<close>, the first value beyond the finite
  doubles, exactly when the bit length of \<open>m\<close> plus \<open>e\<close> exceeds 1024.\<close>

definition overflows :: "int \<times> int \<Rightarrow> bool" where
  "overflows me = (1024 < bit_length (fst me) + snd me)"

definition py_truediv :: "int \<Rightarrow> int \<Rightarrow> error + pyfloat" where
  "py_truediv a b =
     (if b = 0 then Inl ZeroDivisionError
      else let me = nearest_double \<bar>a\<bar> \<bar>b\<bar>
           in if overflows me then Inl OverflowError
              else Inr (Finite (if (a < 0) \<noteq> (b < 0) then - fst me else fst me) (snd me)))"

fun py_int :: "pyfloat \<Rightarrow> error + int" where
  "py_int (Finite m e) =
     Inr (if 0 \<le> e then m * 2 ^ nat e
          else if 0 \<le> m then m div 2 ^ nat (- e) else - ((- m) div 2 ^ nat (- e)))"
| "py_int PosInf = Inl OverflowError"
| "py_int NegInf = Inl OverflowError"

section \<open>The request dictionary\<close>

text \<open>
  \<open>user_data\<close> is the dictionary filled by \<open>collect_user_inputs\<close>; a key that is missing
  is \<open>None\<close>.  The document code reads it with \<open>.get(key, default)\<close>.
\<close>

record user_data =
  name :: "ustring option"
  email :: "ustring option"
  age :: "int option"
  mobile :: "ustring option"
  emergency_contact :: "ustring option"
  departure_city :: "ustring option"
  destination :: "ustring option"
  departure_date :: "date option"
  return_date :: "date option"
  num_travelers :: "int option"
  trip_type :: "ustring option"
  total_budget :: "int option"
  budget_category :: "ustring option"
  accommodation_pct :: "int option"
  transport_pct :: "int option"
  food_pct :: "int option"
  activities_pct :: "int option"
  transport_mode :: "ustring list option"
  accommodation_type :: "ustring list option"
  travel_pace :: "ustring option"
  planning_style :: "ustring option"
  interests :: "ustring list option"
  dietary_pref :: "ustring option"
  food_allergies :: "ustring option"
  accessibility_needs :: "ustring option"
  language_pref :: "ustring option"

section \<open>Budget allocation\<close>

text \<open>
  Lines 485 to 490 of \<open>add_enhanced_budget_breakdown\<close>: each named amount is
  \<open>int(total_budget * pct / 100)\<close>, a float division followed by truncation, and the
  miscellaneous amount is what remains of the total.
\<close>

record budget_breakdown =
  accommodation :: int
  transport :: int
  food :: int
  activities :: int
  miscellaneous :: int

definition named_amount :: "int \<Rightarrow> int \<Rightarrow> error + int" where
  "named_amount budget pct = bindE (py_truediv (budget * pct) 100) py_int"

definition budget_allocation :: "user_data \<Rightarrow> error + budget_breakdown" where
  "budget_allocation ud =
     (let budget = get_or (total_budget ud) 200000
      in bindE (named_amount budget (get_or (accommodation_pct ud) 40)) (\<lambda>acc.
         bindE (named_amount budget (get_or (transport_pct ud) 25)) (\<lambda>tr.
         bindE (named_amount budget (get_or (food_pct ud) 20)) (\<lambda>fd.
         bindE (named_amount budget (get_or (activities_pct ud) 15)) (\<lambda>act.
         Inr \<lparr>accommodation = acc, transport = tr, food = fd, activities = act,
              miscellaneous = budget - (acc + tr + fd + act)\<rparr>)))))"

section \<open>A sample request\<close>

text \<open>A request as the form produces it (Scenario C of the specification: 2024-01-10 to
  2024-01-14, interests History and Food, destination Delhi), used to evaluate the model.\<close>

definition sample_request :: user_data where
  "sample_request =
     \<lparr>name = Some (u ''Asha Rao''), email = Some (u ''asha@example.com''), age = Some 30,
      mobile = Some (u ''+91 9876543210''), emergency_contact = Some (u ''Ravi: +91 9876543211''),
      departure_city = Some (u ''Mumbai''), destination = Some (u ''Delhi''),
      departure_date = Some 738895, return_date = Some 738899,
      num_travelers = Some 2, trip_type = Some (u ''Friends''),
      total_budget = Some 100000, budget_category = Some (u ''Mid-Range (Rs.25K-75K)''),
      accommodation_pct = Some 40, transport_pct = Some 25, food_pct = Some 20,
      activities_pct = Some 15,
      transport_mode = Some [u ''Flight''], accommodation_type = Some [u ''Hotels''],
      travel_pace = Some (u ''Moderate''), planning_style = Some (u ''Flexible''),
      interests = Some [u ''History'', u ''Food''], dietary_pref = Some (u ''Vegetarian''),
      food_allergies = Some [], accessibility_needs = Some [],
      language_pref = Some (u ''English'')\<rparr>"

section \<open>Properties of the floating-point model\<close>

lemma bit_length_nonneg: "0 \<le> bit_length n"
  by (induction n rule: bit_length.induct) (simp add: bit_length.simps)

lemma bit_length_upper: "0 \<le> n \<Longrightarrow> n < 2 ^ nat (bit_length n)"
proof (induction n rule: bit_length.induct)
  case (1 n)
  show ?case
  proof (cases "n \<le> 0")
    case True
    with 1 show ?thesis by (simp add: bit_length.simps)
  next
    case False
    then have ih: "n div 2 < 2 ^ nat (bit_length (n div 2))" using 1 by simp
    have "nat (1 + bit_length (n div 2)) = Suc (nat (bit_length (n div 2)))"
      using bit_length_nonneg [of "n div 2"] by simp
    then have "2 ^ nat (bit_length n) = 2 * (2::int) ^ nat (bit_length (n div 2))"
      using False by (simp add: bit_length.simps [of n])
    with ih show ?thesis by linarith
  qed
qed

lemma bit_length_lower: "0 < n \<Longrightarrow> 2 ^ nat (bit_length n - 1) \<le> n"
proof (induction n rule: bit_length.induct)
  case (1 n)
  show ?case
  proof (cases "n div 2 = 0")
    case True
    then have "bit_length (n div 2) = 0" by (simp add: bit_length.simps)
    then have "bit_length n = 1" using 1(2) by (simp add: bit_length.simps [of n])
    then show ?thesis using 1(2) by simp
  next
    case False
    then have pos: "0 < n div 2" using 1(2) by (simp add: pos_imp_zdiv_pos_iff)
    then have ih: "2 ^ nat (bit_length (n div 2) - 1) \<le> n div 2" using 1 by simp
    have "1 \<le> bit_length (n div 2)"
      using pos bit_length_nonneg [of "n div 2 div 2"] by (simp add: bit_length.simps [of "n div 2"])
    then have "nat (bit_length n - 1) = Suc (nat (bit_length (n div 2) - 1))"
      using 1(2) by (simp add: bit_length.simps [of n])
    then have "2 ^ nat (bit_length n - 1) = 2 * (2::int) ^ nat (bit_length (n div 2) - 1)"
      by simp
    with ih show ?thesis by linarith
  qed
qed

lemma bit_length_le: assumes "0 \<le> n" "n < 2 ^ j" shows "bit_length n \<le> int j"
proof (cases "n = 0")
  case True
  then show ?thesis by (simp add: bit_length.simps)
next
  case False
  then have "0 < n" using assms by simp
  then have "(2::int) ^ nat (bit_length n - 1) < 2 ^ j"
    using bit_length_lower [of n] assms by linarith
  then have "nat (bit_length n - 1) < j" by simp
  then show ?thesis by linarith
qed

lemma binade_less:
  assumes "0 < a" "0 < b" "a < b * 2 ^ k"
  shows "binade a b < int k"
proof -
  define d where "d = bit_length a - bit_length b"
  have c: "binade a b = d \<and> (if 0 \<le> d then b * 2 ^ nat d \<le> a else b \<le> a * 2 ^ nat (- d))
           \<or> binade a b = d - 1"
    by (simp add: binade_def Let_def d_def)
  then show ?thesis
  proof
    assume h: "binade a b = d \<and> (if 0 \<le> d then b * 2 ^ nat d \<le> a else b \<le> a * 2 ^ nat (- d))"
    show ?thesis
    proof (cases "0 \<le> d")
      case True
      then have "b * 2 ^ nat d \<le> a" using h by simp
      then have "b * 2 ^ nat d < b * 2 ^ k" using assms(3) by linarith
      then have "(2::int) ^ nat d < 2 ^ k" using assms(2) by simp
      then have "nat d < k" by simp
      then show ?thesis using h by linarith
    next
      case False
      then show ?thesis using h by simp
    qed
  next
    assume h: "binade a b = d - 1"
    have l: "2 ^ nat (bit_length a - 1) \<le> a" using bit_length_lower assms(1) by simp
    have "b < 2 ^ nat (bit_length b)" using bit_length_upper assms(2) by simp
    then have "b * 2 ^ k < 2 ^ nat (bit_length b) * 2 ^ k" by simp
    then have "(2::int) ^ nat (bit_length a - 1) < 2 ^ nat (bit_length b) * 2 ^ k"
      using l assms(3) by linarith
    then have "(2::int) ^ nat (bit_length a - 1) < 2 ^ (nat (bit_length b) + k)"
      by (simp add: power_add)
    then have "nat (bit_length a - 1) < nat (bit_length b) + k" by simp
    then show ?thesis using h d_def bit_length_nonneg [of b] by linarith
  qed
qed

lemma rdhe_bounds:
  assumes "0 < d"
  shows "2 * (d * round_div_half_even n d) \<le> 2 * n + d"
    and "2 * n \<le> 2 * (d * round_div_half_even n d) + d"
proof -
  define q r p where "q = n div d" and "r = n mod d" and "p = d * q"
  have nq: "n = p + r" and rd: "r < d" and r0: "0 \<le> r"
    using assms by (simp_all add: q_def r_def p_def)
  have s: "d * (q + 1) = p + d" by (simp add: p_def algebra_simps)
  have c: "round_div_half_even n d = q \<or> round_div_half_even n d = q + 1"
    by (simp add: round_div_half_even_def Let_def q_def)
  have lo: "round_div_half_even n d = q \<Longrightarrow> 2 * r \<le> d"
    by (simp add: round_div_half_even_def Let_def q_def r_def split: if_splits)
  have hi: "round_div_half_even n d = q + 1 \<Longrightarrow> d \<le> 2 * r"
    by (simp add: round_div_half_even_def Let_def q_def r_def split: if_splits)
  have a: "2 * (d * round_div_half_even n d) \<le> 2 * n + d"
  proof (rule disjE [OF c])
    assume e: "round_div_half_even n d = q"
    have "2 * p \<le> 2 * n + d" using nq rd r0 by linarith
    then show ?thesis by (simp add: e p_def)
  next
    assume e: "round_div_half_even n d = q + 1"
    have "2 * p + 2 * d \<le> 2 * n + d" using nq hi [OF e] by linarith
    then show ?thesis by (simp add: e s)
  qed
  have b: "2 * n \<le> 2 * (d * round_div_half_even n d) + d"
  proof (rule disjE [OF c])
    assume e: "round_div_half_even n d = q"
    have "2 * n \<le> 2 * p + d" using nq lo [OF e] by linarith
    then show ?thesis by (simp add: e p_def)
  next
    assume e: "round_div_half_even n d = q + 1"
    have "2 * n \<le> 2 * p + 2 * d + d" using nq rd r0 by linarith
    then show ?thesis by (simp add: e s)
  qed
  show "2 * (d * round_div_half_even n d) \<le> 2 * n + d" by (rule a)
  show "2 * n \<le> 2 * (d * round_div_half_even n d) + d" by (rule b)
qed



lemma nearest_double_div100:
  assumes "0 < a" "a < 100 * 2 ^ 47"
  shows "\<exists>m k. nearest_double a 100 = (m, - int k) \<and> 6 \<le> k
           \<and> (a div 100) * 2 ^ k \<le> m \<and> m < (a div 100 + 1) * 2 ^ k"
proof -
  define e where "e = max (binade a 100 - 52) (- 1074)"
  define k where "k = nat (- e)"
  define P :: int where "P = 2 ^ k"
  define m where "m = round_div_half_even (a * P) 100"
  define q r where "q = a div 100" and "r = a mod 100"
  have "binade a 100 < int 47" using assms by (intro binade_less) simp_all
  then have e: "e \<le> - 6" by (simp add: e_def)
  then have k: "6 \<le> k" and ek: "e = - int k" by (simp_all add: k_def)
  have "nearest_double a 100 = (round_div_half_even (a * 2 ^ nat (- e)) 100, e)"
    using assms(1) e by (simp add: nearest_double_def Let_def e_def[symmetric])
  then have nd: "nearest_double a 100 = (m, - int k)"
    by (simp only: m_def P_def k_def[symmetric] ek[symmetric])
  have "(2::int) ^ 6 \<le> 2 ^ k" using k by (intro power_increasing) simp_all
  then have P: "64 \<le> P" by (simp add: P_def)
  have a: "a = 100 * q + r" and r: "0 \<le> r" "r \<le> 99" by (simp_all add: q_def r_def)
  define X Y where "X = q * P" and "Y = r * P"
  have aP: "a * P = 100 * X + Y" by (simp add: a X_def Y_def algebra_simps)
  have Y0: "0 \<le> Y" using r P by (simp add: Y_def)
  have "r * P \<le> 99 * P" using r P by (intro mult_right_mono) simp_all
  then have Y1: "Y \<le> 99 * P" by (simp add: Y_def)
  have b1: "2 * (100 * m) \<le> 2 * (a * P) + 100" and b2: "2 * (a * P) \<le> 2 * (100 * m) + 100"
    unfolding m_def by (rule rdhe_bounds, simp)+
  have lo: "X \<le> m" using b2 aP Y0 by linarith
  have hi: "m < X + P" using b1 aP Y1 P by linarith
  have "(q + 1) * P = X + P" by (simp add: X_def algebra_simps)
  then show ?thesis using nd k lo hi by (auto simp: X_def P_def q_def)
qed

lemma named_amount_floor:
  assumes "0 \<le> a" "a < 100 * 2 ^ 47" "a = budget * pct"
  shows "named_amount budget pct = Inr (a div 100)"
proof (cases "a = 0")
  case True
  then have "budget * pct = 0" using assms(3) by simp
  then show ?thesis
    using True
    by (simp add: named_amount_def py_truediv_def nearest_double_def overflows_def bindE_def
        bit_length.simps Let_def)
next
  case False
  then have pos: "0 < a" using assms(1) by simp
  obtain m k where nd: "nearest_double a 100 = (m, - int k)" and k: "6 \<le> k"
    and lo: "(a div 100) * 2 ^ k \<le> m" and hi: "m < (a div 100 + 1) * 2 ^ k"
    using nearest_double_div100 [OF pos assms(2)] by blast
  have q0: "0 \<le> a div 100" using assms(1) by (simp add: pos_imp_zdiv_nonneg_iff)
  then have m0: "0 \<le> m" using lo by (meson mult_nonneg_nonneg order_trans zero_le_numeral zero_le_power)
  have "a div 100 + 1 \<le> 2 ^ 47" using assms(2) by simp
  then have "(a div 100 + 1) * 2 ^ k \<le> 2 ^ 47 * (2::int) ^ k"
    by (intro mult_right_mono) simp_all
  then have "m < 2 ^ 47 * (2::int) ^ k" using hi by (rule less_le_trans [rotated])
  then have "m < 2 ^ (47 + k)" by (simp only: power_add)
  then have "bit_length m \<le> int (47 + k)" using m0 by (intro bit_length_le)
  then have nov: "\<not> overflows (m, - int k)" by (simp add: overflows_def)
  have "m = 2 ^ k * (a div 100) + (m - (a div 100) * 2 ^ k)" by simp
  moreover have "0 \<le> m - (a div 100) * 2 ^ k" using lo by simp
  moreover have "m - (a div 100) * 2 ^ k < 2 ^ k" using hi by (simp add: algebra_simps)
  ultimately have d: "m div 2 ^ k = a div 100" by (rule int_div_pos_eq)
  have k0: "\<not> 0 \<le> - int k" using k by simp
  have "py_truediv a 100 = Inr (Finite m (- int k))"
    using assms(1) nd nov by (simp add: py_truediv_def)
  then show ?thesis
    using m0 k0 d by (simp add: named_amount_def bindE_def assms(3) [symmetric])
qed

section \<open>Budget allocation: exact sum and floor amounts\<close>

lemma budget_allocation_Inr:
  assumes "budget_allocation ud = Inr bd"
  shows "\<exists>acc tr fd act.
           bd = \<lparr>accommodation = acc, transport = tr, food = fd, activities = act,
                 miscellaneous = get_or (total_budget ud) 200000 - (acc + tr + fd + act)\<rparr>"
  using assms
  by (auto simp: budget_allocation_def bindE_def Let_def split: sum.splits)

lemma budget_allocation_floor:
  assumes "0 \<le> B" "B = get_or (total_budget ud) 200000"
    and "0 \<le> get_or (accommodation_pct ud) 40" "B * get_or (accommodation_pct ud) 40 < 100 * 2 ^ 47"
    and "0 \<le> get_or (transport_pct ud) 25" "B * get_or (transport_pct ud) 25 < 100 * 2 ^ 47"
    and "0 \<le> get_or (food_pct ud) 20" "B * get_or (food_pct ud) 20 < 100 * 2 ^ 47"
    and "0 \<le> get_or (activities_pct ud) 15" "B * get_or (activities_pct ud) 15 < 100 * 2 ^ 47"
  shows "budget_allocation ud =
           Inr \<lparr>accommodation = B * get_or (accommodation_pct ud) 40 div 100,
                transport = B * get_or (transport_pct ud) 25 div 100,
                food = B * get_or (food_pct ud) 20 div 100,
                activities = B * get_or (activities_pct ud) 15 div 100,
                miscellaneous = B - (B * get_or (accommodation_pct ud) 40 div 100
                  + B * get_or (transport_pct ud) 25 div 100
                  + B * get_or (food_pct ud) 20 div 100
                  + B * get_or (activities_pct ud) 15 div 100)\<rparr>"
proof -
  have a: "named_amount B (get_or (accommodation_pct ud) 40) = Inr (B * get_or (accommodation_pct ud) 40 div 100)"
    using assms by (intro named_amount_floor) simp_all
  have b: "named_amount B (get_or (transport_pct ud) 25) = Inr (B * get_or (transport_pct ud) 25 div 100)"
    using assms by (intro named_amount_floor) simp_all
  have c: "named_amount B (get_or (food_pct ud) 20) = Inr (B * get_or (food_pct ud) 20 div 100)"
    using assms by (intro named_amount_floor) simp_all
  have d: "named_amount B (get_or (activities_pct ud) 15) = Inr (B * get_or (activities_pct ud) 15 div 100)"
    using assms by (intro named_amount_floor) simp_all
  show ?thesis
    unfolding budget_allocation_def Let_def assms(2) [symmetric]
    by (simp add: a b c d bindE_def)
qed

text \<open>
  C1.  Whenever the budget breakdown produces its five amounts, they sum exactly to the
  total budget, and the miscellaneous amount is the total minus the other four, with no
  clamping.  The amounts are produced for every non-negative total and non-negative
  percentages whose products with the total stay below \<open>100 * 2 ^ 47\<close>, whatever the
  percentages sum to; with percentages summing above 100 the miscellaneous amount is
  negative (total 1000 with percentages 60, 60, 0, 0 gives \<open>- 200\<close>).
\<close>

theorem budget_sum_exact:
  "(\<forall>bd. budget_allocation ud = Inr bd \<longrightarrow>
      accommodation bd + transport bd + food bd + activities bd + miscellaneous bd
        = get_or (total_budget ud) 200000
      \<and> miscellaneous bd = get_or (total_budget ud) 200000
          - (accommodation bd + transport bd + food bd + activities bd))
   \<and> (0 \<le> get_or (total_budget ud) 200000
       \<and> 0 \<le> get_or (accommodation_pct ud) 40
       \<and> get_or (total_budget ud) 200000 * get_or (accommodation_pct ud) 40 < 100 * 2 ^ 47
       \<and> 0 \<le> get_or (transport_pct ud) 25
       \<and> get_or (total_budget ud) 200000 * get_or (transport_pct ud) 25 < 100 * 2 ^ 47
       \<and> 0 \<le> get_or (food_pct ud) 20
       \<and> get_or (total_budget ud) 200000 * get_or (food_pct ud) 20 < 100 * 2 ^ 47
       \<and> 0 \<le> get_or (activities_pct ud) 15
       \<and> get_or (total_budget ud) 200000 * get_or (activities_pct ud) 15 < 100 * 2 ^ 47
      \<longrightarrow> (\<exists>bd. budget_allocation ud = Inr bd))
   \<and> budget_allocation (sample_request\<lparr>total_budget := Some 1000, accommodation_pct := Some 60,
          transport_pct := Some 60, food_pct := Some 0, activities_pct := Some 0\<rparr>)
       = Inr \<lparr>accommodation = 600, transport = 600, food = 0, activities = 0,
              miscellaneous = - 200\<rparr>"
proof (intro conjI allI impI)
  fix bd
  assume h: "budget_allocation ud = Inr bd"
  from budget_allocation_Inr [OF h]
  show "accommodation bd + transport bd + food bd + activities bd + miscellaneous bd
          = get_or (total_budget ud) 200000"
    by auto
  from budget_allocation_Inr [OF h]
  show "miscellaneous bd = get_or (total_budget ud) 200000
          - (accommodation bd + transport bd + food bd + activities bd)"
    by auto
next
  assume "0 \<le> get_or (total_budget ud) 200000
       \<and> 0 \<le> get_or (accommodation_pct ud) 40
       \<and> get_or (total_budget ud) 200000 * get_or (accommodation_pct ud) 40 < 100 * 2 ^ 47
       \<and> 0 \<le> get_or (transport_pct ud) 25
       \<and> get_or (total_budget ud) 200000 * get_or (transport_pct ud) 25 < 100 * 2 ^ 47
       \<and> 0 \<le> get_or (food_pct ud) 20
       \<and> get_or (total_budget ud) 200000 * get_or (food_pct ud) 20 < 100 * 2 ^ 47
       \<and> 0 \<le> get_or (activities_pct ud) 15
       \<and> get_or (total_budget ud) 200000 * get_or (activities_pct ud) 15 < 100 * 2 ^ 47"
  then show "\<exists>bd. budget_allocation ud = Inr bd"
    using budget_allocation_floor [of "get_or (total_budget ud) 200000" ud] by blast
next
  show "budget_allocation (sample_request\<lparr>total_budget := Some 1000, accommodation_pct := Some 60,
          transport_pct := Some 60, food_pct := Some 0, activities_pct := Some 0\<rparr>)
       = Inr \<lparr>accommodation = 600, transport = 600, food = 0, activities = 0,
              miscellaneous = - 200\<rparr>"
    by code_simp
qed

theorem budget_sum_exact_witness:
  "budget_allocation sample_request
     = Inr \<lparr>accommodation = 40000, transport = 25000, food = 20000, activities = 15000,
            miscellaneous = 0\<rparr>
   \<and> (40000 + 25000 + 20000 + 15000 + 0 = get_or (total_budget sample_request) 200000)"
proof -
  have e: "budget_allocation sample_request
     = Inr \<lparr>accommodation = 40000, transport = 25000, food = 20000, activities = 15000,
            miscellaneous = 0\<rparr>"
    by code_simp
  from budget_sum_exact [of sample_request] e
  show ?thesis by simp
qed




end
